theory Spec2Isabelle
  imports Complex_Main
begin

section \<open>The model viewer of src/main.js\<close>

text \<open>
  The viewer keeps two globals that matter here, \<^verbatim>\<open>currentModel\<close> and \<^verbatim>\<open>gui\<close>, a scene
  graph, and the load requests handed to the asset loader. The functions
  \<^verbatim>\<open>loadModel\<close>, \<^verbatim>\<open>applyPreset\<close> and \<^verbatim>\<open>createGUI\<close> are embedded as state transformers; the
  callbacks they register (load success, load error, panel change handlers) run when the
  environment delivers an event.

  Numbers are only stored and copied by this code, never computed on, so a number is a
  \<^typ>\<open>real\<close> and a literal of the source is that literal.
\<close>

subsection \<open>Data\<close>

record vec3 =
  vx :: real
  vy :: real
  vz :: real

text \<open>An entry of \<^verbatim>\<open>modelPresets\<close>, and the transform part of a scene object.\<close>

record transform =
  position :: vec3
  rotation :: vec3
  scale :: vec3

text \<open>
  A loaded model root (\<^verbatim>\<open>gltf.scene\<close>): its live transform and the path it was loaded
  from (\<open>None\<close> is \<^verbatim>\<open>undefined\<close>).
\<close>

record object3d =
  xform :: transform
  source :: "string option"

text \<open>
  A panel built by \<^verbatim>\<open>createGUI\<close>: the two dropdowns with their current values and options,
  the model name captured by the preset handler, and the object whose position, rotation
  and scale vectors the numeric controllers are bound to.
\<close>

record panel =
  pid :: nat
  modelSel :: string
  modelOptions :: "string list"
  panelModel :: string
  viewSel :: string
  presetOptions :: "string list"
  target :: nat

text \<open>
  The state. Objects live in a store (\<open>heap\<close>) and are referred to by address, since the
  scene, \<^verbatim>\<open>currentModel\<close> and the panel's controllers share them. \<open>scene\<close> lists the model
  roots among the scene's children (the lights, stage and helpers added once by \<^verbatim>\<open>init\<close>
  are never removed and are left out). \<open>live\<close> lists the panels that were constructed and
  not destroyed. \<open>pending\<close> maps each load request in flight to the path it was issued
  for. \<open>console\<close> collects what \<^verbatim>\<open>console.error\<close> printed.
\<close>

record viewer =
  heap :: "nat \<rightharpoonup> object3d"
  nextObj :: nat
  scene :: "nat list"
  currentModel :: "nat option"
  gui :: "panel option"
  live :: "nat list"
  nextGui :: nat
  pending :: "nat \<rightharpoonup> string option"
  nextReq :: nat
  console :: "string list"

datatype error = TypeError

subsection \<open>The catalogs\<close>

definition modelFiles :: "(string \<times> string) list" where
  "modelFiles =
     [(''Regular Hand'', ''/hand_model.glb''),
      (''Skeleton Hand'', ''/skeleton_hand.glb'')]"

definition vec :: "real \<Rightarrow> real \<Rightarrow> real \<Rightarrow> vec3" where
  "vec a b c = \<lparr>vx = a, vy = b, vz = c\<rparr>"

definition modelPresets :: "(string \<times> (string \<times> transform) list) list" where
  "modelPresets =
     [(''Regular Hand'',
        [(''Default'',
            \<lparr>position = vec (-10) (-20) (-7), rotation = vec (-1.02) (-1.06) 0.07,
             scale = vec 1 1 1\<rparr>),
         (''Palm View'',
            \<lparr>position = vec 1 39 (-6), rotation = vec 4.41 1.72 0.07,
             scale = vec 1.2 1.2 1.2\<rparr>),
         (''Side View'',
            \<lparr>position = vec (-31) 23 12, rotation = vec 4.95 (-5.81) (-6.34),
             scale = vec 1.2 1.2 1.2\<rparr>)]),
      (''Skeleton Hand'',
        [(''Default'',
            \<lparr>position = vec 10 30 8, rotation = vec (-0.7) (-6.2) (-3.2),
             scale = vec 1.1 1.1 1.1\<rparr>),
         (''Palm View'',
            \<lparr>position = vec (-11) (-9) 11, rotation = vec 3.8 3.1 3.1,
             scale = vec 1.1 1.1 1.1\<rparr>),
         (''Wrist View'',
            \<lparr>position = vec 12 4 4, rotation = vec 3.1 1.8 (-1.6),
             scale = vec 1.1 1.1 1.1\<rparr>)])]"

text \<open>
  \<^verbatim>\<open>Object.keys(o)\<close> and \<^verbatim>\<open>o[k]\<close> on the catalogs' own keys. A name that may be
  \<^verbatim>\<open>undefined\<close> is a \<^typ>\<open>string option\<close>; no catalog has the key \<^verbatim>\<open>"undefined"\<close>.
\<close>

definition keys :: "(string \<times> 'a) list \<Rightarrow> string list" where
  "keys kvs = map fst kvs"

definition presetsOf :: "string option \<Rightarrow> (string \<times> transform) list option" where
  "presetsOf modelName =
     (case modelName of None \<Rightarrow> None | Some n \<Rightarrow> map_of modelPresets n)"

subsection \<open>Scene graph and store\<close>

text \<open>
  \<^verbatim>\<open>scene.remove(o)\<close> takes the first occurrence of \<open>o\<close> out of the children;
  \<^verbatim>\<open>scene.add(o)\<close> detaches \<open>o\<close> from its parent and appends it.
\<close>

definition sceneRemove :: "nat \<Rightarrow> viewer \<Rightarrow> viewer" where
  "sceneRemove h s = s\<lparr>scene := remove1 h (scene s)\<rparr>"

definition sceneAdd :: "nat \<Rightarrow> viewer \<Rightarrow> viewer" where
  "sceneAdd h s = s\<lparr>scene := remove1 h (scene s) @ [h]\<rparr>"

definition modify :: "nat \<Rightarrow> (object3d \<Rightarrow> object3d) \<Rightarrow> (nat \<rightharpoonup> object3d) \<Rightarrow> (nat \<rightharpoonup> object3d)" where
  "modify h f hp = (case hp h of None \<Rightarrow> hp | Some obj \<Rightarrow> hp(h \<mapsto> f obj))"

text \<open>\<^verbatim>\<open>o.position.set(a, b, c)\<close> and its siblings.\<close>

definition setPosition :: "real \<Rightarrow> real \<Rightarrow> real \<Rightarrow> object3d \<Rightarrow> object3d" where
  "setPosition a b c obj = obj\<lparr>xform := (xform obj)\<lparr>position := vec a b c\<rparr>\<rparr>"

definition setRotation :: "real \<Rightarrow> real \<Rightarrow> real \<Rightarrow> object3d \<Rightarrow> object3d" where
  "setRotation a b c obj = obj\<lparr>xform := (xform obj)\<lparr>rotation := vec a b c\<rparr>\<rparr>"

definition setScale :: "real \<Rightarrow> real \<Rightarrow> real \<Rightarrow> object3d \<Rightarrow> object3d" where
  "setScale a b c obj = obj\<lparr>xform := (xform obj)\<lparr>scale := vec a b c\<rparr>\<rparr>"

subsection \<open>applyPreset\<close>

definition applyPreset :: "string option \<Rightarrow> string \<Rightarrow> viewer \<Rightarrow> viewer" where
  "applyPreset modelName presetName s =
     (case currentModel s of
        None \<Rightarrow> s
      | Some h \<Rightarrow>
          (case presetsOf modelName of
             None \<Rightarrow> s
           | Some ps \<Rightarrow>
               (case map_of ps presetName of
                  None \<Rightarrow> s
                | Some preset \<Rightarrow>
                    s\<lparr>heap :=
                        modify h
                          (\<lambda>obj.
                             setScale (vx (scale preset)) (vy (scale preset)) (vz (scale preset))
                               (setRotation (vx (rotation preset)) (vy (rotation preset))
                                  (vz (rotation preset))
                                  (setPosition (vx (position preset)) (vy (position preset))
                                     (vz (position preset)) obj)))
                          (heap s)\<rparr>)))"

subsection \<open>createGUI\<close>

text \<open>
  \<^verbatim>\<open>gui.destroy()\<close> on the previous panel, \<^verbatim>\<open>new GUI\<close>, then the controllers. Reading the
  keys of \<^verbatim>\<open>modelPresets[currentModelName]\<close> when that is \<^verbatim>\<open>undefined\<close>, and reading
  \<^verbatim>\<open>currentModel.position\<close> when \<^verbatim>\<open>currentModel\<close> is, throw a TypeError; the model
  returns the error.
\<close>

definition destroyGUI :: "viewer \<Rightarrow> viewer" where
  "destroyGUI s =
     (case gui s of None \<Rightarrow> s | Some g \<Rightarrow> s\<lparr>live := remove1 (pid g) (live s)\<rparr>)"

definition createGUI :: "string option \<Rightarrow> viewer \<Rightarrow> error + viewer" where
  "createGUI currentModelName s =
     (let s1 = destroyGUI s;
          p = nextGui s1;
          s2 = s1\<lparr>nextGui := Suc p, live := live s1 @ [p]\<rparr>
      in case currentModelName of
           None \<Rightarrow> Inl TypeError
         | Some n \<Rightarrow>
             (case presetsOf currentModelName of
                None \<Rightarrow> Inl TypeError
              | Some ps \<Rightarrow>
                  (case currentModel s2 of
                     None \<Rightarrow> Inl TypeError
                   | Some h \<Rightarrow>
                       Inr (s2\<lparr>gui :=
                                 Some \<lparr>pid = p, modelSel = n, modelOptions = keys modelFiles,
                                       panelModel = n, viewSel = ''Default'',
                                       presetOptions = keys ps, target = h\<rparr>\<rparr>))))"

subsection \<open>loadModel and its callbacks\<close>

text \<open>
  The synchronous part of \<^verbatim>\<open>loadModel\<close>: the current model, if any, leaves the scene, and
  the request is handed to the loader.
\<close>

definition loadModel :: "string option \<Rightarrow> viewer \<Rightarrow> viewer" where
  "loadModel modelPath s =
     (let s1 = (case currentModel s of None \<Rightarrow> s | Some h \<Rightarrow> sceneRemove h s)
      in s1\<lparr>pending := (pending s1)(nextReq s1 \<mapsto> modelPath), nextReq := Suc (nextReq s1)\<rparr>)"

text \<open>
  The success callback, for a request issued with \<open>modelPath\<close>: the loaded root is a new
  object, with whatever transform \<open>t\<close> the asset came with.
\<close>

definition onLoad :: "string option \<Rightarrow> transform \<Rightarrow> viewer \<Rightarrow> error + viewer" where
  "onLoad modelPath t s =
     (let h = nextObj s;
          s1 = s\<lparr>heap := (heap s)(h \<mapsto> \<lparr>xform = t, source = modelPath\<rparr>), nextObj := Suc h\<rparr>;
          s2 = s1\<lparr>currentModel := Some h\<rparr>;
          s3 = sceneAdd h s2;
          modelName = find (\<lambda>key. map_of modelFiles key = modelPath) (keys modelFiles);
          s4 = applyPreset modelName ''Default'' s3
      in createGUI modelName s4)"

text \<open>The error callback: \<^verbatim>\<open>console.error('Error loading model:', error)\<close>.\<close>

definition onError :: "string \<Rightarrow> viewer \<Rightarrow> viewer" where
  "onError err s = s\<lparr>console := console s @ [''Error loading model: '' @ err]\<rparr>"

subsection \<open>Events\<close>

text \<open>
  What the environment delivers: a change of one of the panel's controllers, or the
  completion of a load request. A controller writes the delivered value into the property
  it is bound to and then calls its change handler. Only a controller of the panel held
  in \<^verbatim>\<open>gui\<close> can deliver, a dropdown delivers one of its options, and a request completes
  once; an event that cannot be delivered leaves the state as it is.
\<close>

datatype field = PositionX | PositionY | PositionZ | RotationX | RotationY | RotationZ | Scale

datatype event =
    SelectModel string
  | SelectPreset string
  | EditField field real
  | LoadDone nat transform
  | LoadFailed nat string

definition writeField :: "field \<Rightarrow> real \<Rightarrow> object3d \<Rightarrow> object3d" where
  "writeField f v obj =
     (let t = xform obj
      in obj\<lparr>xform :=
           (case f of
              PositionX \<Rightarrow> t\<lparr>position := (position t)\<lparr>vx := v\<rparr>\<rparr>
            | PositionY \<Rightarrow> t\<lparr>position := (position t)\<lparr>vy := v\<rparr>\<rparr>
            | PositionZ \<Rightarrow> t\<lparr>position := (position t)\<lparr>vz := v\<rparr>\<rparr>
            | RotationX \<Rightarrow> t\<lparr>rotation := (rotation t)\<lparr>vx := v\<rparr>\<rparr>
            | RotationY \<Rightarrow> t\<lparr>rotation := (rotation t)\<lparr>vy := v\<rparr>\<rparr>
            | RotationZ \<Rightarrow> t\<lparr>rotation := (rotation t)\<lparr>vz := v\<rparr>\<rparr>
            | Scale \<Rightarrow> t\<lparr>scale := (scale t)\<lparr>vx := v\<rparr>\<rparr>)\<rparr>)"

text \<open>The scale controller's handler: \<^verbatim>\<open>v => currentModel.scale.set(v, v, v)\<close>.\<close>

definition onScaleChange :: "real \<Rightarrow> viewer \<Rightarrow> error + viewer" where
  "onScaleChange v s =
     (case currentModel s of
        None \<Rightarrow> Inl TypeError
      | Some h \<Rightarrow> Inr (s\<lparr>heap := modify h (setScale v v v) (heap s)\<rparr>))"

fun step :: "event \<Rightarrow> viewer \<Rightarrow> error + viewer" where
  "step (SelectModel modelName) s =
     (case gui s of
        None \<Rightarrow> Inr s
      | Some g \<Rightarrow>
          if modelName \<in> set (modelOptions g)
          then Inr (loadModel (map_of modelFiles modelName)
                      (s\<lparr>gui := Some (g\<lparr>modelSel := modelName\<rparr>)\<rparr>))
          else Inr s)"
| "step (SelectPreset presetName) s =
     (case gui s of
        None \<Rightarrow> Inr s
      | Some g \<Rightarrow>
          if presetName \<in> set (presetOptions g)
          then Inr (applyPreset (Some (panelModel g)) presetName
                      (s\<lparr>gui := Some (g\<lparr>viewSel := presetName\<rparr>)\<rparr>))
          else Inr s)"
| "step (EditField f v) s =
     (case gui s of
        None \<Rightarrow> Inr s
      | Some g \<Rightarrow>
          (let s1 = s\<lparr>heap := modify (target g) (writeField f v) (heap s)\<rparr>
           in if f = Scale then onScaleChange v s1 else Inr s1))"
| "step (LoadDone rid t) s =
     (case pending s rid of
        None \<Rightarrow> Inr s
      | Some modelPath \<Rightarrow> onLoad modelPath t (s\<lparr>pending := (pending s)(rid := None)\<rparr>))"
| "step (LoadFailed rid err) s =
     (case pending s rid of
        None \<Rightarrow> Inr s
      | Some modelPath \<Rightarrow> Inr (onError err (s\<lparr>pending := (pending s)(rid := None)\<rparr>)))"

fun run :: "event list \<Rightarrow> viewer \<Rightarrow> error + viewer" where
  "run [] s = Inr s"
| "run (e # es) s = (case step e s of Inl err \<Rightarrow> Inl err | Inr s' \<Rightarrow> run es s')"

subsection \<open>init\<close>

text \<open>
  The globals before \<^verbatim>\<open>init\<close> runs, and the state \<^verbatim>\<open>init\<close> leaves: its one effect on the
  state above is \<^verbatim>\<open>loadModel(modelFiles['Regular Hand'])\<close>.
\<close>

definition blank :: viewer where
  "blank =
     \<lparr>heap = Map.empty, nextObj = 0, scene = [], currentModel = None, gui = None, live = [],
      nextGui = 0, pending = Map.empty, nextReq = 0, console = []\<rparr>"

definition init :: viewer where
  "init = loadModel (map_of modelFiles ''Regular Hand'') blank"

text \<open>The states the program can be in.\<close>

inductive reachable :: "viewer \<Rightarrow> bool" where
  reachable_init: "reachable init"
| reachable_step: "reachable s \<Longrightarrow> step e s = Inr s' \<Longrightarrow> reachable s'"

subsection \<open>Invariant\<close>

text \<open>
  What holds in every state the program can be in: the scene holds each model root once;
  \<^verbatim>\<open>currentModel\<close>, when set, is an allocated object; a panel exists only when a model
  is current and then there is one, it is the one live panel, and its controllers are
  bound to the current model; every request in flight was issued for a path of \<^verbatim>\<open>modelFiles\<close>.
\<close>

definition viewer_inv :: "viewer \<Rightarrow> bool" where
  "viewer_inv s \<longleftrightarrow>
     distinct (scene s) \<and> (\<forall>h \<in> set (scene s). h < nextObj s) \<and>
     (case currentModel s of
        None \<Rightarrow> gui s = None
      | Some h \<Rightarrow> h < nextObj s \<and> heap s h \<noteq> None \<and> gui s \<noteq> None) \<and>
     (case gui s of
        None \<Rightarrow> live s = []
      | Some g \<Rightarrow>
          live s = [pid g] \<and> pid g < nextGui s \<and> currentModel s = Some (target g) \<and>
          modelOptions g = keys modelFiles) \<and>
     (\<forall>rid p. pending s rid = Some p \<longrightarrow> p \<in> Some ` snd ` set modelFiles)"

text \<open>The state a successful load leaves, written out.\<close>

definition loaded :: "string \<Rightarrow> string \<Rightarrow> (string \<times> transform) list \<Rightarrow> transform \<Rightarrow> viewer \<Rightarrow> viewer" where
  "loaded n p ps d s =
     s\<lparr>heap := (heap s)(nextObj s \<mapsto> \<lparr>xform = d, source = Some p\<rparr>),
       nextObj := Suc (nextObj s),
       scene := remove1 (nextObj s) (scene s) @ [nextObj s],
       currentModel := Some (nextObj s),
       gui := Some \<lparr>pid = nextGui s, modelSel = n, modelOptions = keys modelFiles,
                    panelModel = n, viewSel = ''Default'', presetOptions = keys ps,
                    target = nextObj s\<rparr>,
       live := (case gui s of None \<Rightarrow> live s | Some g \<Rightarrow> remove1 (pid g) (live s)) @ [nextGui s],
       nextGui := Suc (nextGui s)\<rparr>"

subsection \<open>Observations\<close>

text \<open>
  What is displayed: the path the current model was loaded from, and its live transform.
\<close>

definition displayedPath :: "viewer \<Rightarrow> string option" where
  "displayedPath s =
     (case currentModel s of
        None \<Rightarrow> None
      | Some h \<Rightarrow> (case heap s h of None \<Rightarrow> None | Some obj \<Rightarrow> source obj))"

definition displayedTransform :: "viewer \<Rightarrow> transform option" where
  "displayedTransform s =
     (case currentModel s of
        None \<Rightarrow> None
      | Some h \<Rightarrow> (case heap s h of None \<Rightarrow> None | Some obj \<Rightarrow> Some (xform obj)))"

text \<open>The model name the panel in \<^verbatim>\<open>gui\<close> was built for.\<close>

definition displayedName :: "viewer \<Rightarrow> string option" where
  "displayedName s = (case gui s of None \<Rightarrow> None | Some g \<Rightarrow> Some (panelModel g))"

text \<open>\<^verbatim>\<open>modelPresets[m][p]\<close>.\<close>

definition presetCatalog :: "string \<Rightarrow> string \<Rightarrow> transform option" where
  "presetCatalog m p = (case map_of modelPresets m of None \<Rightarrow> None | Some ps \<Rightarrow> map_of ps p)"

text \<open>
  The state after \<^verbatim>\<open>init\<close> and then the events \<open>evs\<close>. No run from \<open>init\<close> ends in an
  error (\<open>run_outcome\<close> below), so this is always the state the run returns.
\<close>

definition outcome :: "event list \<Rightarrow> viewer" where
  "outcome evs = projr (run evs init)"

text \<open>A sequence of panel rebuilds.\<close>

fun rebuilds :: "string option list \<Rightarrow> viewer \<Rightarrow> error + viewer" where
  "rebuilds [] s = Inr s"
| "rebuilds (n # ns) s = (case createGUI n s of Inl err \<Rightarrow> Inl err | Inr s' \<Rightarrow> rebuilds ns s')"

text \<open>A transform an asset may come with, for the examples.\<close>

definition asset0 :: transform where
  "asset0 = \<lparr>position = vec 0 0 0, rotation = vec 0 0 0, scale = vec 1 1 1\<rparr>"

text \<open>
  Two model switches in a row from the first displayed model, to Skeleton Hand (request 1)
  and back to Regular Hand (request 2), whose loads complete in the reverse order.
\<close>

definition raced :: "event list" where
  "raced =
     [LoadDone 0 asset0, SelectModel ''Skeleton Hand'', SelectModel ''Regular Hand'',
      LoadDone 2 asset0, LoadDone 1 asset0]"

section \<open>Basic facts\<close>

lemma modify_eq_None [simp]: "modify h f hp k = None \<longleftrightarrow> hp k = None"
  by (simp add: modify_def split: option.splits)

lemma modify_same: "hp h = Some obj \<Longrightarrow> modify h f hp h = Some (f obj)"
  by (simp add: modify_def)

lemma modify_other: "k \<noteq> h \<Longrightarrow> modify h f hp k = hp k"
  by (simp add: modify_def split: option.splits)

lemma vec_eta [simp]: "vec (vx v) (vy v) (vz v) = v"
  by (simp add: vec_def)

lemma vec_sel [simp]: "vx (vec a b c) = a" "vy (vec a b c) = b" "vz (vec a b c) = c"
  by (simp_all add: vec_def)

lemma applyPreset_fields [simp]:
  "scene (applyPreset m p s) = scene s"
  "currentModel (applyPreset m p s) = currentModel s"
  "gui (applyPreset m p s) = gui s"
  "live (applyPreset m p s) = live s"
  "nextObj (applyPreset m p s) = nextObj s"
  "nextGui (applyPreset m p s) = nextGui s"
  "pending (applyPreset m p s) = pending s"
  "nextReq (applyPreset m p s) = nextReq s"
  "console (applyPreset m p s) = console s"
  by (simp_all add: applyPreset_def split: option.splits)

lemma applyPreset_heap_None [simp]: "heap (applyPreset m p s) k = None \<longleftrightarrow> heap s k = None"
  by (simp add: applyPreset_def split: option.splits)

lemma viewer_inv_heap:
  assumes "viewer_inv s" and "\<And>k. hp k = None \<longleftrightarrow> heap s k = None"
  shows "viewer_inv (s\<lparr>heap := hp\<rparr>)"
  using assms by (simp add: viewer_inv_def split: option.splits)

lemma applyPreset_eq: "applyPreset m p s = s\<lparr>heap := heap (applyPreset m p s)\<rparr>"
  by (simp add: applyPreset_def split: option.splits)

lemma applyPreset_inv: "viewer_inv s \<Longrightarrow> viewer_inv (applyPreset m p s)"
  by (subst applyPreset_eq) (rule viewer_inv_heap, simp_all)

lemma transform_overwrite [simp]:
  "(t :: transform)\<lparr>position := position d, rotation := rotation d, scale := scale d\<rparr> = d"
  by (cases t, cases d) simp

lemma applyPreset_found:
  assumes "currentModel s = Some h" and "heap s h = Some obj"
    and "map_of modelPresets n = Some ps" and "map_of ps p = Some d"
  shows "applyPreset (Some n) p s = s\<lparr>heap := (heap s)(h \<mapsto> obj\<lparr>xform := d\<rparr>)\<rparr>"
  using assms
  by (simp add: applyPreset_def presetsOf_def modify_def setScale_def setRotation_def
      setPosition_def)

lemma loadModel_fields [simp]:
  "heap (loadModel p s) = heap s"
  "currentModel (loadModel p s) = currentModel s"
  "gui (loadModel p s) = gui s"
  "live (loadModel p s) = live s"
  "nextObj (loadModel p s) = nextObj s"
  "nextGui (loadModel p s) = nextGui s"
  "console (loadModel p s) = console s"
  "nextReq (loadModel p s) = Suc (nextReq s)"
  "pending (loadModel p s) = (pending s)(nextReq s \<mapsto> p)"
  "scene (loadModel p s) = (case currentModel s of None \<Rightarrow> scene s | Some h \<Rightarrow> remove1 h (scene s))"
  by (simp_all add: loadModel_def sceneRemove_def Let_def split: option.splits)

lemma loadModel_inv:
  "viewer_inv s \<Longrightarrow> p \<in> Some ` snd ` set modelFiles \<Longrightarrow> viewer_inv (loadModel p s)"
  unfolding viewer_inv_def
  by (auto split: option.splits dest: notin_set_remove1)

lemma modelFiles_cases:
  assumes "map_of modelFiles n = Some p"
  shows "n = ''Regular Hand'' \<and> p = ''/hand_model.glb'' \<or>
         n = ''Skeleton Hand'' \<and> p = ''/skeleton_hand.glb''"
  using assms by (auto simp: modelFiles_def split: if_splits)

lemma find_modelName:
  assumes "map_of modelFiles n = Some p"
  shows "find (\<lambda>key. map_of modelFiles key = Some p) (keys modelFiles) = Some n"
  using modelFiles_cases [OF assms] by (auto simp: modelFiles_def keys_def)

lemma find_modelName_None:
  assumes "p \<notin> Some ` snd ` set modelFiles"
  shows "find (\<lambda>key. map_of modelFiles key = p) (keys modelFiles) = None"
  using assms by (auto simp: modelFiles_def keys_def)

lemma presets_Default:
  assumes "map_of modelFiles n = Some p"
  shows "\<exists>ps d. map_of modelPresets n = Some ps \<and> map_of ps ''Default'' = Some d"
  using modelFiles_cases [OF assms] by (auto simp: modelPresets_def)

lemma in_modelFiles:
  assumes "p \<in> Some ` snd ` set modelFiles"
  shows "\<exists>n q. p = Some q \<and> map_of modelFiles n = Some q"
proof -
  from assms obtain n q where nq: "(n, q) \<in> set modelFiles" and p: "p = Some q"
    by auto
  have "distinct (map fst modelFiles)"
    by (simp add: modelFiles_def)
  then have "map_of modelFiles n = Some q"
    using nq by (rule map_of_is_SomeI)
  with p show ?thesis by blast
qed

lemma onLoad_Some:
  assumes n: "map_of modelFiles n = Some p"
    and ps: "map_of modelPresets n = Some ps" and d: "map_of ps ''Default'' = Some d"
  shows "onLoad (Some p) t s = Inr (loaded n p ps d s)"
proof -
  let ?h = "nextObj s"
  let ?s3 = "s\<lparr>heap := (heap s)(?h \<mapsto> \<lparr>xform = t, source = Some p\<rparr>), nextObj := Suc ?h,
               currentModel := Some ?h, scene := remove1 ?h (scene s) @ [?h]\<rparr>"
  have ap: "applyPreset (Some n) ''Default'' ?s3 =
            ?s3\<lparr>heap := (heap ?s3)(?h \<mapsto> \<lparr>xform = t, source = Some p\<rparr>\<lparr>xform := d\<rparr>)\<rparr>"
    by (rule applyPreset_found [OF _ _ ps d]) simp_all
  show ?thesis
    unfolding onLoad_def Let_def find_modelName [OF n] sceneAdd_def
    by (simp add: ap createGUI_def presetsOf_def ps Let_def destroyGUI_def loaded_def
        split: option.splits)
qed

lemma onLoad_Inl:
  assumes "p \<notin> Some ` snd ` set modelFiles"
  shows "onLoad p t s = Inl TypeError"
  by (simp add: onLoad_def Let_def find_modelName_None [OF assms] createGUI_def)

lemma loaded_inv:
  assumes "viewer_inv s" and "map_of modelFiles n = Some p"
  shows "viewer_inv (loaded n p ps d s)"
  using assms unfolding viewer_inv_def loaded_def
  by (auto split: option.splits dest: notin_set_remove1 intro: less_SucI)

lemma onLoad_inv:
  assumes "viewer_inv s" and "onLoad p t s = Inr s'"
  shows "viewer_inv s'"
proof (cases "p \<in> Some ` snd ` set modelFiles")
  case False
  from onLoad_Inl [OF this] assms(2) show ?thesis by simp
next
  case True
  from in_modelFiles [OF this] obtain n q where p: "p = Some q" and n: "map_of modelFiles n = Some q"
    by blast
  from presets_Default [OF n] obtain ps d
    where "map_of modelPresets n = Some ps" and "map_of ps ''Default'' = Some d"
    by blast
  from onLoad_Some [OF n this] assms(2) p have "s' = loaded n q ps d s"
    by simp
  with loaded_inv [OF assms(1) n] show ?thesis by simp
qed

lemma step_EditField:
  assumes "gui s = Some g" and "currentModel s = Some h"
  shows "step (EditField f v) s =
         Inr (s\<lparr>heap := (if f = Scale then modify h (setScale v v v) else id)
                          (modify (target g) (writeField f v) (heap s))\<rparr>)"
  using assms by (simp add: onScaleChange_def Let_def)

lemma step_inv:
  assumes "viewer_inv s" and "step e s = Inr s'"
  shows "viewer_inv s'"
proof (cases e)
  case (SelectModel n)
  show ?thesis
  proof (cases "gui s")
    case None
    with SelectModel assms show ?thesis by simp
  next
    case (Some g)
    show ?thesis
    proof (cases "n \<in> set (modelOptions g)")
      case False
      with Some SelectModel assms show ?thesis by simp
    next
      case True
      have opts: "modelOptions g = keys modelFiles"
        using assms(1) Some by (simp add: viewer_inv_def)
      with True have "map_of modelFiles n \<in> Some ` snd ` set modelFiles"
        by (auto simp: keys_def modelFiles_def)
      moreover have "viewer_inv (s\<lparr>gui := Some (g\<lparr>modelSel := n\<rparr>)\<rparr>)"
        using assms(1) Some by (simp add: viewer_inv_def split: option.splits)
      ultimately show ?thesis
        using Some SelectModel assms(2) True by (auto intro: loadModel_inv)
    qed
  qed
next
  case (SelectPreset p)
  show ?thesis
  proof (cases "gui s")
    case None
    with SelectPreset assms show ?thesis by simp
  next
    case (Some g)
    have "viewer_inv (s\<lparr>gui := Some (g\<lparr>viewSel := p\<rparr>)\<rparr>)"
      using assms(1) Some by (simp add: viewer_inv_def split: option.splits)
    then show ?thesis
      using Some SelectPreset assms by (auto intro: applyPreset_inv split: if_splits)
  qed
next
  case (EditField f v)
  show ?thesis
  proof (cases "gui s")
    case None
    with EditField assms show ?thesis by simp
  next
    case (Some g)
    from assms(1) Some have cur: "currentModel s = Some (target g)"
      by (simp add: viewer_inv_def)
    from step_EditField [OF Some cur] EditField assms(2)
    have "s' = s\<lparr>heap := (if f = Scale then modify (target g) (setScale v v v) else id)
                          (modify (target g) (writeField f v) (heap s))\<rparr>"
      by simp
    then show ?thesis
      using assms(1) by (simp add: viewer_inv_heap)
  qed
next
  case (LoadDone rid t)
  show ?thesis
  proof (cases "pending s rid")
    case None
    with LoadDone assms show ?thesis by simp
  next
    case (Some p)
    have "viewer_inv (s\<lparr>pending := (pending s)(rid := None)\<rparr>)"
      using assms(1) by (simp add: viewer_inv_def split: option.splits)
    with Some LoadDone assms(2) show ?thesis
      by (auto intro: onLoad_inv)
  qed
next
  case (LoadFailed rid err)
  show ?thesis
  proof (cases "pending s rid")
    case None
    with LoadFailed assms show ?thesis by simp
  next
    case (Some p)
    with LoadFailed assms(2)
    have "s' = s\<lparr>pending := (pending s)(rid := None), console := console s @ [''Error loading model: '' @ err]\<rparr>"
      by (simp add: onError_def)
    with assms(1) show ?thesis
      by (simp add: viewer_inv_def split: option.splits)
  qed
qed

lemma init_inv: "viewer_inv init"
  by (simp add: viewer_inv_def init_def blank_def modelFiles_def)

lemma reachable_inv: "reachable s \<Longrightarrow> viewer_inv s"
  by (induction rule: reachable.induct) (auto intro: init_inv step_inv)

lemma step_ok:
  assumes "viewer_inv s"
  shows "\<exists>s'. step e s = Inr s'"
proof (cases e)
  case (LoadDone rid t)
  show ?thesis
  proof (cases "pending s rid")
    case None
    with LoadDone show ?thesis by simp
  next
    case (Some p)
    with assms have "p \<in> Some ` snd ` set modelFiles"
      by (simp add: viewer_inv_def)
    from in_modelFiles [OF this] obtain n q where p: "p = Some q" and n: "map_of modelFiles n = Some q"
      by blast
    from presets_Default [OF n] obtain ps d
      where "map_of modelPresets n = Some ps" and "map_of ps ''Default'' = Some d"
      by blast
    from onLoad_Some [OF n this] Some LoadDone p show ?thesis by simp
  qed
next
  case (EditField f v)
  show ?thesis
  proof (cases "gui s")
    case None
    with EditField show ?thesis by simp
  next
    case (Some g)
    from assms Some have "currentModel s = Some (target g)"
      by (simp add: viewer_inv_def)
    from step_EditField [OF Some this] EditField show ?thesis by simp
  qed
qed (simp_all split: option.splits)

lemma run_reachable:
  assumes "reachable s"
  shows "\<exists>s'. run evs s = Inr s' \<and> reachable s'"
  using assms
proof (induction evs arbitrary: s)
  case Nil
  then show ?case by simp
next
  case (Cons e evs)
  from step_ok [OF reachable_inv [OF Cons.prems]] obtain s1 where s1: "step e s = Inr s1"
    by blast
  with Cons.prems have "reachable s1"
    by (rule reachable_step)
  from Cons.IH [OF this] s1 show ?case by simp
qed

lemma run_outcome: "run evs init = Inr (outcome evs)"
  using run_reachable [OF reachable_init, of evs] by (auto simp: outcome_def)

lemma reachable_outcome: "reachable (outcome evs)"
  using run_reachable [OF reachable_init, of evs] by (auto simp: outcome_def)

lemmas unfolds = init_def blank_def loadModel_def onLoad_def createGUI_def destroyGUI_def
  applyPreset_def presetsOf_def sceneAdd_def sceneRemove_def modify_def keys_def Let_def
  modelFiles_def modelPresets_def setScale_def setRotation_def setPosition_def onError_def
  onScaleChange_def writeField_def displayedPath_def displayedTransform_def
  displayedName_def presetCatalog_def asset0_def

lemma loaded_observed [simp]:
  "displayedPath (loaded n p ps d s) = Some p"
  "displayedTransform (loaded n p ps d s) = Some d"
  "currentModel (loaded n p ps d s) = Some (nextObj s)"
  "displayedName (loaded n p ps d s) = Some n"
  "pending (loaded n p ps d s) = pending s"
  "scene (loaded n p ps d s) = remove1 (nextObj s) (scene s) @ [nextObj s]"
  by (simp_all add: loaded_def displayedPath_def displayedTransform_def displayedName_def)

lemma step_LoadDone:
  assumes "pending s rid = Some (Some p)" and "map_of modelFiles n = Some p"
  shows "\<exists>ps d. map_of modelPresets n = Some ps \<and> map_of ps ''Default'' = Some d \<and>
           step (LoadDone rid t) s = Inr (loaded n p ps d (s\<lparr>pending := (pending s)(rid := None)\<rparr>))"
  using presets_Default [OF assms(2)] assms by (auto simp: onLoad_Some)

section \<open>Superseded loads\<close>

text \<open>
  C1, as stated: when a second \<^verbatim>\<open>selectModel\<close> is issued before the first load completes,
  the model displayed in the end is the one requested last, whatever the order of
  completion. This fails on the code, which keeps no record of the latest request. In
  \<open>raced\<close> the user selects Skeleton Hand (request 1) and then Regular Hand (request 2)
  while both loads are in flight; request 2 completes first and request 1 after it. In the
  end no request is in flight, and the displayed model and the panel are Skeleton Hand,
  the one requested first.
\<close>

theorem superseded_load_counterexample:
  "pending (outcome (take 3 raced)) 1 = Some (Some ''/skeleton_hand.glb'') \<and>
   pending (outcome (take 3 raced)) 2 = Some (Some ''/hand_model.glb'') \<and>
   pending (outcome raced) 1 = None \<and> pending (outcome raced) 2 = None \<and>
   displayedPath (outcome raced) = Some ''/skeleton_hand.glb'' \<and>
   displayedName (outcome raced) = Some ''Skeleton Hand''"
proof -
  have "\<exists>s. run (take 3 raced) init = Inr s \<and>
          pending s 1 = Some (Some ''/skeleton_hand.glb'') \<and>
          pending s 2 = Some (Some ''/hand_model.glb'')"
    by (simp add: raced_def unfolds)
  moreover
  have "\<exists>s. run raced init = Inr s \<and> pending s 1 = None \<and> pending s 2 = None \<and>
          displayedPath s = Some ''/skeleton_hand.glb'' \<and>
          displayedName s = Some ''Skeleton Hand''"
    by (simp add: raced_def unfolds)
  ultimately show ?thesis
    by (auto simp: run_outcome)
qed

text \<open>
  C1, amended: a load that completes successfully always makes its own model the displayed
  one and builds the panel for it, whether or not a later request was issued, and leaves
  the other requests in flight. So the model displayed in the end is the one whose load
  completed last.
\<close>

theorem completed_load_displayed:
  assumes "reachable s" and "pending s rid = Some p"
  shows "\<exists>s' n q. step (LoadDone rid t) s = Inr s' \<and> p = Some q \<and>
           map_of modelFiles n = Some q \<and> displayedPath s' = Some q \<and>
           displayedName s' = Some n \<and>
           pending s' = (pending s)(rid := None)"
proof -
  from reachable_inv [OF assms(1)] assms(2) have "p \<in> Some ` snd ` set modelFiles"
    by (simp add: viewer_inv_def)
  from in_modelFiles [OF this] obtain n q where p: "p = Some q" and n: "map_of modelFiles n = Some q"
    by blast
  from step_LoadDone [OF assms(2) [unfolded p] n, of t] obtain ps d where
    st: "step (LoadDone rid t) s = Inr (loaded n q ps d (s\<lparr>pending := (pending s)(rid := None)\<rparr>))"
    by blast
  show ?thesis
    unfolding st using p n by simp
qed

theorem completed_load_displayed_witness:
  "reachable (outcome (take 4 raced)) \<and>
   pending (outcome (take 4 raced)) 1 = Some (Some ''/skeleton_hand.glb'') \<and>
   (\<exists>s' n q. step (LoadDone 1 asset0) (outcome (take 4 raced)) = Inr s' \<and>
      Some ''/skeleton_hand.glb'' = Some q \<and>
      map_of modelFiles n = Some q \<and> displayedPath s' = Some q \<and>
      displayedName s' = Some n \<and>
      pending s' = (pending (outcome (take 4 raced)))(1 := None))"
proof -
  have r: "reachable (outcome (take 4 raced))"
    by (rule reachable_outcome)
  have "\<exists>s. run (take 4 raced) init = Inr s \<and>
          pending s 1 = Some (Some ''/skeleton_hand.glb'')"
    by (simp add: raced_def unfolds)
  then have p: "pending (outcome (take 4 raced)) 1 = Some (Some ''/skeleton_hand.glb'')"
    by (auto simp: run_outcome)
  from r p completed_load_displayed [OF r p, of asset0] show ?thesis
    by blast
qed

section \<open>A failed load\<close>




section \<open>Release of the previous model\<close>

lemma onLoad_Inr:
  assumes "onLoad p t s = Inr s'"
  shows "\<exists>n q ps d. p = Some q \<and> map_of modelFiles n = Some q \<and> s' = loaded n q ps d s"
proof (cases "p \<in> Some ` snd ` set modelFiles")
  case False
  from onLoad_Inl [OF this] assms show ?thesis by simp
next
  case True
  from in_modelFiles [OF this] obtain n q where p: "p = Some q" and n: "map_of modelFiles n = Some q"
    by blast
  from presets_Default [OF n] obtain ps d
    where "map_of modelPresets n = Some ps" and "map_of ps ''Default'' = Some d"
    by blast
  from onLoad_Some [OF n this] assms p have "s' = loaded n q ps d s"
    by simp
  with p n show ?thesis by blast
qed

lemma step_absent:
  assumes "step e s = Inr s'" and "h < nextObj s" and "h \<notin> set (scene s)"
  shows "h < nextObj s' \<and> h \<notin> set (scene s')"
proof (cases e)
  case (SelectModel n)
  with assms show ?thesis
    by (auto split: option.splits if_splits dest: notin_set_remove1)
next
  case (SelectPreset p)
  with assms show ?thesis
    by (auto split: option.splits if_splits)
next
  case (EditField f v)
  with assms show ?thesis
    by (auto simp: Let_def onScaleChange_def split: option.splits if_splits)
next
  case (LoadDone rid t)
  show ?thesis
  proof (cases "pending s rid")
    case None
    with LoadDone assms show ?thesis by simp
  next
    case (Some p)
    with LoadDone assms(1) have "onLoad p t (s\<lparr>pending := (pending s)(rid := None)\<rparr>) = Inr s'"
      by simp
    from onLoad_Inr [OF this] obtain n q ps d where
      "s' = loaded n q ps d (s\<lparr>pending := (pending s)(rid := None)\<rparr>)"
      by blast
    with assms(2,3) show ?thesis
      by (auto simp: loaded_def dest: notin_set_remove1)
  qed
next
  case (LoadFailed rid err)
  with assms show ?thesis
    by (auto simp: onError_def split: option.splits)
qed

lemma run_absent:
  assumes "run evs s = Inr s'" and "h < nextObj s" and "h \<notin> set (scene s)"
  shows "h < nextObj s' \<and> h \<notin> set (scene s')"
  using assms
proof (induction evs arbitrary: s)
  case Nil
  then show ?case by simp
next
  case (Cons e evs)
  from Cons.prems(1) obtain s1 where s1: "step e s = Inr s1" and rest: "run evs s1 = Inr s'"
    by (auto split: sum.splits)
  from step_absent [OF s1 Cons.prems(2,3)] have "h < nextObj s1" and "h \<notin> set (scene s1)"
    by simp_all
  from Cons.IH [OF rest this] show ?case .
qed

lemma reachable_LoadDone:
  assumes "reachable s" and "pending s rid \<noteq> None"
  shows "\<exists>n q ps d. step (LoadDone rid t) s =
           Inr (loaded n q ps d (s\<lparr>pending := (pending s)(rid := None)\<rparr>))"
proof -
  from assms(2) obtain p where pend: "pending s rid = Some p"
    by blast
  with reachable_inv [OF assms(1)] have "p \<in> Some ` snd ` set modelFiles"
    by (simp add: viewer_inv_def)
  from in_modelFiles [OF this] obtain n q where p: "p = Some q" and n: "map_of modelFiles n = Some q"
    by blast
  from step_LoadDone [OF pend [unfolded p] n, of t] show ?thesis
    by blast
qed

lemma run_append:
  "run (es @ fs) s = (case run es s of Inl err \<Rightarrow> Inl err | Inr s' \<Rightarrow> run fs s')"
  by (induction es arbitrary: s) (simp_all split: sum.splits)

lemma run_from_outcome: "run fs (outcome es) = Inr (outcome (es @ fs))"
proof -
  have "run fs (outcome es) = run (es @ fs) init"
    by (simp only: run_append run_outcome [of es] sum.case)
  also have "\<dots> = Inr (outcome (es @ fs))"
    by (rule run_outcome)
  finally show ?thesis .
qed

text \<open>
  C3, as stated: on a switch from \<open>old\<close> to \<open>new\<close>, the previous model is released only
  after the new load has succeeded, never before the load completes. This fails on the
  code: with Regular Hand displayed (object 0, in the scene), selecting Skeleton Hand
  leaves request 1 in flight and object 0, still \<^verbatim>\<open>currentModel\<close>, already out of the scene.
\<close>

theorem early_release_counterexample:
  "currentModel (outcome [LoadDone 0 asset0]) = Some 0 \<and>
   scene (outcome [LoadDone 0 asset0]) = [0] \<and>
   pending (outcome [LoadDone 0 asset0, SelectModel ''Skeleton Hand'']) 1 =
     Some (Some ''/skeleton_hand.glb'') \<and>
   currentModel (outcome [LoadDone 0 asset0, SelectModel ''Skeleton Hand'']) = Some 0 \<and>
   scene (outcome [LoadDone 0 asset0, SelectModel ''Skeleton Hand'']) = []"
proof -
  have "\<exists>s. run [LoadDone 0 asset0] init = Inr s \<and> currentModel s = Some 0 \<and> scene s = [0]"
    by (simp add: unfolds)
  moreover
  have "\<exists>s. run [LoadDone 0 asset0, SelectModel ''Skeleton Hand''] init = Inr s \<and>
          pending s 1 = Some (Some ''/skeleton_hand.glb'') \<and> currentModel s = Some 0 \<and>
          scene s = []"
    by (simp add: unfolds)
  ultimately show ?thesis
    by (auto simp: run_outcome)
qed

text \<open>
  C3, amended: on a switch requested while \<open>old\<close> is the current model, \<open>old\<close> is taken
  out of the scene at the request, while the load is still in flight, and it is never in
  the scene again, whatever events follow, in any order. Whenever the requested load then
  succeeds, the newly loaded model becomes current and is in the scene.
\<close>

theorem release_on_request:
  assumes "reachable s" and "currentModel s = Some old" and "gui s = Some g"
    and "n \<in> set (modelOptions g)"
  shows "\<exists>s1. step (SelectModel n) s = Inr s1 \<and>
           pending s1 (nextReq s) = Some (map_of modelFiles n) \<and>
           currentModel s1 = Some old \<and> old \<notin> set (scene s1) \<and>
           (\<forall>evs. \<exists>s2. run evs s1 = Inr s2 \<and> old \<notin> set (scene s2) \<and>
              (\<forall>t. pending s2 (nextReq s) \<noteq> None \<longrightarrow>
                 (\<exists>s3. step (LoadDone (nextReq s) t) s2 = Inr s3 \<and>
                    currentModel s3 = Some (nextObj s2) \<and> nextObj s2 \<in> set (scene s3) \<and>
                    old \<notin> set (scene s3))))"
proof -
  let ?s1 = "loadModel (map_of modelFiles n) (s\<lparr>gui := Some (g\<lparr>modelSel := n\<rparr>)\<rparr>)"
  from reachable_inv [OF assms(1)] assms(2)
  have inv: "distinct (scene s)" "old < nextObj s"
    by (simp_all add: viewer_inv_def)
  have s1: "step (SelectModel n) s = Inr ?s1"
    using assms(3,4) by simp
  with assms(1) have r1: "reachable ?s1"
    by (rule reachable_step)
  have out: "old \<notin> set (scene ?s1)"
    using inv(1) assms(2) by simp
  have lt: "old < nextObj ?s1"
    using inv(2) by simp
  have later: "\<exists>s2. run evs ?s1 = Inr s2 \<and> old \<notin> set (scene s2) \<and>
              (\<forall>t. pending s2 (nextReq s) \<noteq> None \<longrightarrow>
                 (\<exists>s3. step (LoadDone (nextReq s) t) s2 = Inr s3 \<and>
                    currentModel s3 = Some (nextObj s2) \<and> nextObj s2 \<in> set (scene s3) \<and>
                    old \<notin> set (scene s3)))" for evs
  proof -
    from run_reachable [OF r1, of evs] obtain s2 where
      s2: "run evs ?s1 = Inr s2" and r2: "reachable s2"
      by blast
    from run_absent [OF s2 lt out] have lt2: "old < nextObj s2" and out2: "old \<notin> set (scene s2)"
      by simp_all
    have "\<exists>s3. step (LoadDone (nextReq s) t) s2 = Inr s3 \<and>
            currentModel s3 = Some (nextObj s2) \<and> nextObj s2 \<in> set (scene s3) \<and>
            old \<notin> set (scene s3)" if "pending s2 (nextReq s) \<noteq> None" for t
    proof -
      from reachable_LoadDone [OF r2 that, of t] obtain m q ps d where
        s3: "step (LoadDone (nextReq s) t) s2 =
               Inr (loaded m q ps d (s2\<lparr>pending := (pending s2)(nextReq s := None)\<rparr>))"
        by blast
      from lt2 have "old \<noteq> nextObj s2"
        by simp
      with out2 show ?thesis
        unfolding s3 by (auto dest: notin_set_remove1)
    qed
    with s2 out2 show ?thesis by blast
  qed
  show ?thesis
  proof (rule exI [of _ ?s1], intro conjI allI)
    show "step (SelectModel n) s = Inr ?s1" by (rule s1)
    show "old \<notin> set (scene ?s1)" by (rule out)
    show "\<exists>s2. run evs ?s1 = Inr s2 \<and> old \<notin> set (scene s2) \<and>
              (\<forall>t. pending s2 (nextReq s) \<noteq> None \<longrightarrow>
                 (\<exists>s3. step (LoadDone (nextReq s) t) s2 = Inr s3 \<and>
                    currentModel s3 = Some (nextObj s2) \<and> nextObj s2 \<in> set (scene s3) \<and>
                    old \<notin> set (scene s3)))" for evs
      by (rule later)
  qed (simp_all add: assms(2))
qed

theorem release_on_request_witness:
  "reachable (outcome [LoadDone 0 asset0]) \<and>
   currentModel (outcome [LoadDone 0 asset0]) = Some 0 \<and>
   (\<exists>g. gui (outcome [LoadDone 0 asset0]) = Some g \<and> ''Skeleton Hand'' \<in> set (modelOptions g)) \<and>
   (\<exists>s1. step (SelectModel ''Skeleton Hand'') (outcome [LoadDone 0 asset0]) = Inr s1 \<and>
      pending s1 (nextReq (outcome [LoadDone 0 asset0])) =
        Some (map_of modelFiles ''Skeleton Hand'') \<and>
      currentModel s1 = Some 0 \<and> 0 \<notin> set (scene s1) \<and>
      (\<exists>s2. run [SelectModel ''Regular Hand'', LoadDone 2 asset0] s1 = Inr s2 \<and>
         0 \<notin> set (scene s2) \<and>
         pending s2 (nextReq (outcome [LoadDone 0 asset0])) \<noteq> None \<and>
         (\<exists>s3. step (LoadDone (nextReq (outcome [LoadDone 0 asset0])) asset0) s2 = Inr s3 \<and>
            currentModel s3 = Some (nextObj s2) \<and> nextObj s2 \<in> set (scene s3) \<and>
            0 \<notin> set (scene s3))))"
proof -
  let ?s = "outcome [LoadDone 0 asset0]"
  let ?evs = "[SelectModel ''Regular Hand'', LoadDone 2 asset0]"
  have r: "reachable ?s"
    by (rule reachable_outcome)
  have "\<exists>s g. run [LoadDone 0 asset0] init = Inr s \<and> currentModel s = Some 0 \<and>
          nextReq s = 1 \<and> gui s = Some g \<and> ''Skeleton Hand'' \<in> set (modelOptions g)"
    by (simp add: unfolds)
  then obtain g where c: "currentModel ?s = Some 0" and q: "nextReq ?s = 1"
    and g: "gui ?s = Some g" and x: "''Skeleton Hand'' \<in> set (modelOptions g)"
    by (auto simp: run_outcome)
  have "\<exists>s. run (take 4 raced) init = Inr s \<and> pending s 1 \<noteq> None"
    by (simp add: raced_def unfolds)
  then have p: "pending (outcome (take 4 raced)) 1 \<noteq> None"
    by (auto simp: run_outcome)
  from release_on_request [OF r c g x] obtain s1 where
    s1: "step (SelectModel ''Skeleton Hand'') ?s = Inr s1"
      "pending s1 (nextReq ?s) = Some (map_of modelFiles ''Skeleton Hand'')"
      "currentModel s1 = Some 0" "0 \<notin> set (scene s1)" and
    later: "\<And>evs. \<exists>s2. run evs s1 = Inr s2 \<and> 0 \<notin> set (scene s2) \<and>
              (\<forall>t. pending s2 (nextReq ?s) \<noteq> None \<longrightarrow>
                 (\<exists>s3. step (LoadDone (nextReq ?s) t) s2 = Inr s3 \<and>
                    currentModel s3 = Some (nextObj s2) \<and> nextObj s2 \<in> set (scene s3) \<and>
                    0 \<notin> set (scene s3)))"
    by blast
  from later [of ?evs] obtain s2 where
    s2: "run ?evs s1 = Inr s2" "0 \<notin> set (scene s2)" and
    compl: "\<And>t. pending s2 (nextReq ?s) \<noteq> None \<Longrightarrow>
             \<exists>s3. step (LoadDone (nextReq ?s) t) s2 = Inr s3 \<and>
                currentModel s3 = Some (nextObj s2) \<and> nextObj s2 \<in> set (scene s3) \<and>
                0 \<notin> set (scene s3)"
    by blast
  from s1(1) have "s1 = outcome [LoadDone 0 asset0, SelectModel ''Skeleton Hand'']"
    using run_from_outcome [of "[SelectModel ''Skeleton Hand'']" "[LoadDone 0 asset0]"]
    by (simp split: sum.splits)
  with s2(1) have "s2 = outcome (take 4 raced)"
    using run_from_outcome [of ?evs "[LoadDone 0 asset0, SelectModel ''Skeleton Hand'']"]
    by (simp add: raced_def)
  with p q have pend: "pending s2 (nextReq ?s) \<noteq> None"
    by simp
  from compl [OF pend, of asset0] r c g x s1 s2 pend show ?thesis
    by blast
qed

section \<open>The Default preset after a load\<close>

text \<open>
  C4: for every model \<open>m\<close> of the asset catalog, when a load requested for \<open>m\<close>'s path
  (what \<^verbatim>\<open>selectModel(m)\<close> issues) succeeds, the displayed model is \<open>m\<close> and its transform
  is exactly \<^verbatim>\<open>modelPresets[m]['Default']\<close>, whatever transform the asset came with.
\<close>

theorem default_after_load:
  assumes "m \<in> set (keys modelFiles)" and "pending s rid = Some (map_of modelFiles m)"
  shows "\<exists>s' d. step (LoadDone rid t) s = Inr s' \<and>
           presetCatalog m ''Default'' = Some d \<and> displayedTransform s' = Some d \<and>
           displayedPath s' = map_of modelFiles m \<and> displayedName s' = Some m"
proof -
  from assms(1) obtain p where p: "map_of modelFiles m = Some p"
    by (auto simp: keys_def modelFiles_def)
  from step_LoadDone [OF assms(2) [unfolded p] p, of t] obtain ps d where
    ps: "map_of modelPresets m = Some ps" and d: "map_of ps ''Default'' = Some d" and
    st: "step (LoadDone rid t) s = Inr (loaded m p ps d (s\<lparr>pending := (pending s)(rid := None)\<rparr>))"
    by blast
  show ?thesis
    unfolding st using p ps d by (simp add: presetCatalog_def)
qed

theorem default_after_load_witness:
  "''Skeleton Hand'' \<in> set (keys modelFiles) \<and>
   pending (loadModel (map_of modelFiles ''Skeleton Hand'') (outcome [LoadDone 0 asset0]))
      (nextReq (outcome [LoadDone 0 asset0])) = Some (map_of modelFiles ''Skeleton Hand'') \<and>
   (\<exists>s' d. step (LoadDone (nextReq (outcome [LoadDone 0 asset0])) asset0)
              (loadModel (map_of modelFiles ''Skeleton Hand'') (outcome [LoadDone 0 asset0])) = Inr s' \<and>
           presetCatalog ''Skeleton Hand'' ''Default'' = Some d \<and> displayedTransform s' = Some d \<and>
           displayedPath s' = map_of modelFiles ''Skeleton Hand'' \<and>
           displayedName s' = Some ''Skeleton Hand'')"
proof -
  have m: "''Skeleton Hand'' \<in> set (keys modelFiles)"
    by (simp add: keys_def modelFiles_def)
  have p: "pending (loadModel (map_of modelFiles ''Skeleton Hand'') (outcome [LoadDone 0 asset0]))
      (nextReq (outcome [LoadDone 0 asset0])) = Some (map_of modelFiles ''Skeleton Hand'')"
    by simp
  from m p default_after_load [OF m p, of asset0] show ?thesis
    by blast
qed

section \<open>The example scenario\<close>

text \<open>
  C5: from the empty state, the load of Regular Hand (the request \<^verbatim>\<open>init\<close> issued)
  succeeds and the transform is the Regular Hand default; the preset Palm View is
  selected and the transform is Regular Hand's Palm View; Skeleton Hand is selected, its
  load succeeds, and the transform is the Skeleton Hand default. The transforms \<open>t0\<close> and
  \<open>t1\<close> the two assets come with are arbitrary.
\<close>

theorem example_scenario:
  "currentModel init = None \<and>
   displayedTransform (outcome [LoadDone 0 t0]) =
     Some \<lparr>position = vec (-10) (-20) (-7), rotation = vec (-1.02) (-1.06) 0.07,
           scale = vec 1 1 1\<rparr> \<and>
   displayedTransform (outcome [LoadDone 0 t0, SelectPreset ''Palm View'']) =
     Some \<lparr>position = vec 1 39 (-6), rotation = vec 4.41 1.72 0.07,
           scale = vec 1.2 1.2 1.2\<rparr> \<and>
   displayedTransform
     (outcome [LoadDone 0 t0, SelectPreset ''Palm View'', SelectModel ''Skeleton Hand'',
               LoadDone 1 t1]) =
     Some \<lparr>position = vec 10 30 8, rotation = vec (-0.7) (-6.2) (-3.2),
           scale = vec 1.1 1.1 1.1\<rparr>"
proof -
  have "currentModel init = None"
    by (simp add: unfolds)
  moreover
  have "\<exists>s. run [LoadDone 0 t0] init = Inr s \<and>
          displayedTransform s =
            Some \<lparr>position = vec (-10) (-20) (-7), rotation = vec (-1.02) (-1.06) 0.07,
                  scale = vec 1 1 1\<rparr>"
    by (simp add: unfolds)
  moreover
  have "\<exists>s. run [LoadDone 0 t0, SelectPreset ''Palm View''] init = Inr s \<and>
          displayedTransform s =
            Some \<lparr>position = vec 1 39 (-6), rotation = vec 4.41 1.72 0.07,
                  scale = vec 1.2 1.2 1.2\<rparr>"
    by (simp add: unfolds)
  moreover
  have "\<exists>s. run [LoadDone 0 t0, SelectPreset ''Palm View'', SelectModel ''Skeleton Hand'',
                 LoadDone 1 t1] init = Inr s \<and>
          displayedTransform s =
            Some \<lparr>position = vec 10 30 8, rotation = vec (-0.7) (-6.2) (-3.2),
                  scale = vec 1.1 1.1 1.1\<rparr>"
    by (simp add: unfolds)
  ultimately show ?thesis
    by (auto simp: run_outcome)
qed

section \<open>The scale field\<close>

text \<open>
  C6: while a model is displayed, a value \<open>v\<close> delivered by the panel's scale field sets
  all three scale components of the displayed model to \<open>v\<close>.
\<close>

theorem uniform_scale:
  assumes "reachable s" and "currentModel s = Some h"
  shows "\<exists>s' tr. step (EditField Scale v) s = Inr s' \<and> currentModel s' = Some h \<and>
           displayedTransform s' = Some tr \<and> scale tr = vec v v v"
proof -
  from reachable_inv [OF assms(1)] assms(2) obtain g obj
    where g: "gui s = Some g" and obj: "heap s h = Some obj"
    by (auto simp: viewer_inv_def)
  from reachable_inv [OF assms(1)] g assms(2) have tg: "target g = h"
    by (simp add: viewer_inv_def)
  show ?thesis
    unfolding step_EditField [OF g assms(2)]
    by (simp add: displayedTransform_def assms(2) tg modify_def obj setScale_def)
qed

theorem uniform_scale_witness:
  "reachable (outcome [LoadDone 0 asset0]) \<and>
   currentModel (outcome [LoadDone 0 asset0]) = Some 0 \<and>
   (\<exists>s' tr. step (EditField Scale 2.5) (outcome [LoadDone 0 asset0]) = Inr s' \<and>
      currentModel s' = Some 0 \<and>
      displayedTransform s' = Some tr \<and> scale tr = vec 2.5 2.5 2.5)"
proof -
  let ?s = "outcome [LoadDone 0 asset0]"
  have r: "reachable ?s"
    by (rule reachable_outcome)
  have "\<exists>s. run [LoadDone 0 asset0] init = Inr s \<and> currentModel s = Some 0"
    by (simp add: unfolds)
  then have c: "currentModel ?s = Some 0"
    by (auto simp: run_outcome)
  from r c uniform_scale [OF r c, of "2.5"] show ?thesis
    by blast
qed

section \<open>One live panel\<close>

lemma createGUI_live:
  assumes "case gui s of None \<Rightarrow> live s = [] | Some g \<Rightarrow> live s = [pid g] \<and> pid g < nextGui s"
    and "createGUI n s = Inr s'"
  shows "\<exists>g'. gui s' = Some g' \<and> live s' = [pid g'] \<and> pid g' < nextGui s' \<and>
           nextGui s \<le> pid g' \<and> nextGui s \<le> nextGui s'"
  using assms
  by (auto simp: createGUI_def destroyGUI_def Let_def split: option.splits)

lemma rebuilds_live:
  assumes "case gui s of None \<Rightarrow> live s = [] | Some g \<Rightarrow> live s = [pid g] \<and> pid g < nextGui s"
    and "rebuilds ns s = Inr s'" and "ns \<noteq> []"
  shows "\<exists>g'. gui s' = Some g' \<and> live s' = [pid g'] \<and> nextGui s \<le> pid g'"
  using assms
proof (induction ns arbitrary: s)
  case Nil
  then show ?case by simp
next
  case (Cons n ns)
  from Cons.prems(2) obtain s1 where s1: "createGUI n s = Inr s1" and rest: "rebuilds ns s1 = Inr s'"
    by (auto split: sum.splits)
  from createGUI_live [OF Cons.prems(1) s1] obtain g1 where
    g1: "gui s1 = Some g1" "live s1 = [pid g1]" "pid g1 < nextGui s1" "nextGui s \<le> pid g1"
      "nextGui s \<le> nextGui s1"
    by blast
  show ?case
  proof (cases "ns = []")
    case True
    with rest g1 show ?thesis by simp
  next
    case False
    from g1 have "case gui s1 of None \<Rightarrow> live s1 = [] | Some g \<Rightarrow> live s1 = [pid g] \<and> pid g < nextGui s1"
      by simp
    from Cons.IH [OF this rest False] g1(5) show ?thesis
      by (auto intro: order_trans)
  qed
qed

text \<open>
  C7: at most one panel is live at any time, and after any non-empty sequence of rebuilds
  exactly one panel is live, the one held in \<^verbatim>\<open>gui\<close>; no panel that was live before is live
  afterwards.
\<close>

theorem one_live_panel:
  assumes "reachable s" and "ns \<noteq> []" and "rebuilds ns s = Inr s'"
  shows "length (live s) \<le> 1 \<and> (\<exists>g'. gui s' = Some g' \<and> live s' = [pid g']) \<and>
         set (live s) \<inter> set (live s') = {}"
proof -
  from reachable_inv [OF assms(1)]
  have inv: "case gui s of None \<Rightarrow> live s = [] | Some g \<Rightarrow> live s = [pid g] \<and> pid g < nextGui s"
    by (simp add: viewer_inv_def split: option.splits)
  from rebuilds_live [OF inv assms(3,2)] obtain g' where
    g': "gui s' = Some g'" "live s' = [pid g']" "nextGui s \<le> pid g'"
    by blast
  with inv show ?thesis
    by (auto split: option.splits)
qed

theorem one_live_panel_witness:
  "reachable (outcome [LoadDone 0 asset0]) \<and> [Some ''Skeleton Hand'', Some ''Regular Hand''] \<noteq> [] \<and>
   (\<exists>s'. rebuilds [Some ''Skeleton Hand'', Some ''Regular Hand''] (outcome [LoadDone 0 asset0]) = Inr s' \<and>
     length (live (outcome [LoadDone 0 asset0])) \<le> 1 \<and>
     (\<exists>g'. gui s' = Some g' \<and> live s' = [pid g']) \<and>
     set (live (outcome [LoadDone 0 asset0])) \<inter> set (live s') = {})"
proof -
  let ?s = "outcome [LoadDone 0 asset0]"
  have r: "reachable ?s"
    by (rule reachable_outcome)
  have n: "[Some ''Skeleton Hand'', Some ''Regular Hand''] \<noteq> []"
    by simp
  have "\<exists>s. run [LoadDone 0 asset0] init = Inr s \<and>
          (\<exists>s'. rebuilds [Some ''Skeleton Hand'', Some ''Regular Hand''] s = Inr s')"
    by (simp add: unfolds)
  then obtain s' where b: "rebuilds [Some ''Skeleton Hand'', Some ''Regular Hand''] ?s = Inr s'"
    by (auto simp: run_outcome)
  from r n b one_live_panel [OF r n b] show ?thesis
    by blast
qed

section \<open>Idempotence of presets\<close>

lemma modify_idem: "(\<And>obj. f (f obj) = f obj) \<Longrightarrow> modify h f (modify h f hp) = modify h f hp"
  by (auto simp: modify_def split: option.splits)

text \<open>
  C8: applying the same preset twice in a row leaves the same state as applying it once,
  for \<^verbatim>\<open>applyPreset\<close> itself and for the preset dropdown delivering the same preset twice.
\<close>

theorem applyPreset_idempotent:
  "applyPreset m p (applyPreset m p s) = applyPreset m p s \<and>
   run [SelectPreset p, SelectPreset p] s = run [SelectPreset p] s"
proof
  show idem: "applyPreset m p (applyPreset m p s) = applyPreset m p s" for m s
    by (simp add: applyPreset_def modify_idem setScale_def setRotation_def setPosition_def
        split: option.splits)
  show "run [SelectPreset p, SelectPreset p] s = run [SelectPreset p] s"
  proof (cases "gui s")
    case None
    then show ?thesis by simp
  next
    case (Some g)
    show ?thesis
    proof (cases "p \<in> set (presetOptions g)")
      case False
      with Some show ?thesis by simp
    next
      case True
      let ?g = "g\<lparr>viewSel := p\<rparr>"
      let ?s1 = "applyPreset (Some (panelModel g)) p (s\<lparr>gui := Some ?g\<rparr>)"
      have s1: "step (SelectPreset p) s = Inr ?s1"
        using Some True by simp
      have "gui ?s1 = Some ?g"
        by simp
      then have same: "?s1\<lparr>gui := Some ?g\<rparr> = ?s1"
        by (metis viewer.surjective viewer.update_convs(5))
      have "step (SelectPreset p) ?s1 = Inr (applyPreset (Some (panelModel g)) p (?s1\<lparr>gui := Some ?g\<rparr>))"
        using True by simp
      then have "step (SelectPreset p) ?s1 = Inr ?s1"
        unfolding same by (simp only: idem)
      with s1 show ?thesis by simp
    qed
  qed
qed

section \<open>The empty state\<close>

text \<open>
  C9: while no model is displayed, a preset selection and a field edit change nothing
  and raise nothing (no panel exists that could deliver them), and \<^verbatim>\<open>applyPreset\<close>
  returns at its guard.
\<close>

theorem empty_noop:
  assumes "reachable s" and "currentModel s = None"
  shows "step (SelectPreset p) s = Inr s \<and> step (EditField f v) s = Inr s \<and>
         applyPreset m p s = s"
proof -
  from reachable_inv [OF assms(1)] assms(2) have "gui s = None"
    by (simp add: viewer_inv_def)
  with assms(2) show ?thesis
    by (simp add: applyPreset_def)
qed

theorem empty_noop_witness:
  "reachable init \<and> currentModel init = None \<and>
   step (SelectPreset ''Palm View'') init = Inr init \<and>
   step (EditField PositionX 5) init = Inr init \<and>
   applyPreset (Some ''Regular Hand'') ''Palm View'' init = init"
proof -
  have c: "currentModel init = None"
    by (simp add: init_def blank_def)
  from c reachable_init empty_noop [OF reachable_init c] show ?thesis
    by blast
qed

section \<open>The initial load\<close>

text \<open>
  C10: \<^verbatim>\<open>init\<close> leaves the session empty with one request in flight, for the Regular Hand
  asset. No model selection can be delivered in that state. When the request succeeds,
  the Regular Hand model is current and in the scene, its transform is the Regular Hand
  default, and the panel is built for Regular Hand.
\<close>

theorem initial_load:
  "currentModel init = None \<and> gui init = None \<and> scene init = [] \<and>
   pending init = [0 \<mapsto> map_of modelFiles ''Regular Hand''] \<and>
   map_of modelFiles ''Regular Hand'' = Some ''/hand_model.glb'' \<and>
   step (SelectModel n) init = Inr init \<and>
   step (LoadDone 0 t) init = Inr (outcome [LoadDone 0 t]) \<and>
   currentModel (outcome [LoadDone 0 t]) = Some 0 \<and>
   scene (outcome [LoadDone 0 t]) = [0] \<and>
   displayedPath (outcome [LoadDone 0 t]) = Some ''/hand_model.glb'' \<and>
   presetCatalog ''Regular Hand'' ''Default'' \<noteq> None \<and>
   displayedTransform (outcome [LoadDone 0 t]) = presetCatalog ''Regular Hand'' ''Default'' \<and>
   displayedName (outcome [LoadDone 0 t]) = Some ''Regular Hand'' \<and>
   live (outcome [LoadDone 0 t]) = [0]"
proof -
  have "currentModel init = None \<and> gui init = None \<and> scene init = [] \<and>
        pending init = [0 \<mapsto> map_of modelFiles ''Regular Hand''] \<and>
        map_of modelFiles ''Regular Hand'' = Some ''/hand_model.glb'' \<and>
        step (SelectModel n) init = Inr init \<and>
        presetCatalog ''Regular Hand'' ''Default'' \<noteq> None"
    by (simp add: init_def blank_def loadModel_def modelFiles_def presetCatalog_def
        modelPresets_def)
  moreover
  have "\<exists>s. run [LoadDone 0 t] init = Inr s \<and> currentModel s = Some 0 \<and> scene s = [0] \<and>
          displayedPath s = Some ''/hand_model.glb'' \<and>
          displayedTransform s = presetCatalog ''Regular Hand'' ''Default'' \<and>
          displayedName s = Some ''Regular Hand'' \<and> live s = [0]"
    by (simp add: unfolds)
  moreover
  have "step (LoadDone 0 t) init = Inr (outcome [LoadDone 0 t])"
    using run_outcome [of "[LoadDone 0 t]"] by (simp split: sum.splits)
  ultimately show ?thesis
    by (auto simp: run_outcome)
qed

end
